theory Spec2Isabelle
  imports Complex_Main "HOL-Library.Multiset" "HOL-Library.Sublist"
begin

section \<open>Characters and strings\<close>

text \<open>
  A Python \<open>str\<close> is a sequence of code points. The model uses \<^typ>\<open>string\<close>, whose
  characters are the code points 0 to 255 (ASCII and the Latin-1 supplement); \<open>length\<close>
  counts code points as Python's \<open>len\<close> does. Text with code points above 255 is
  outside the model. The character classes below are those of Python 3's \<open>re\<close> module
  for \<open>str\<close> patterns, and \<open>py_lower\<close> is \<open>str.lower\<close>, both restricted to that range.
\<close>

definition code_point :: "char \<Rightarrow> nat" where
  "code_point c = of_char c"

definition is_upper_az :: "char \<Rightarrow> bool" where
  \<comment> \<open>the class \<open>[A-Z]\<close>\<close>
  "is_upper_az c = (65 \<le> code_point c \<and> code_point c \<le> 90)"

definition is_lower_az :: "char \<Rightarrow> bool" where
  \<comment> \<open>the class \<open>[a-z]\<close>\<close>
  "is_lower_az c = (97 \<le> code_point c \<and> code_point c \<le> 122)"

definition is_word :: "char \<Rightarrow> bool" where
  \<comment> \<open>the class \<open>\w\<close>: alphanumeric code points and the underscore\<close>
  "is_word c =
     (let n = code_point c in
        (48 \<le> n \<and> n \<le> 57) \<or> (65 \<le> n \<and> n \<le> 90) \<or> n = 95 \<or> (97 \<le> n \<and> n \<le> 122)
        \<or> n \<in> {170, 178, 179, 181, 185, 186, 188, 189, 190}
        \<or> (192 \<le> n \<and> n \<le> 214) \<or> (216 \<le> n \<and> n \<le> 246) \<or> 248 \<le> n)"

definition is_space :: "char \<Rightarrow> bool" where
  \<comment> \<open>the class \<open>\s\<close>\<close>
  "is_space c =
     (let n = code_point c in (9 \<le> n \<and> n \<le> 13) \<or> (28 \<le> n \<and> n \<le> 32) \<or> n = 133 \<or> n = 160)"

definition lower_char :: "char \<Rightarrow> char" where
  "lower_char c =
     (let n = code_point c in
        if (65 \<le> n \<and> n \<le> 90) \<or> (192 \<le> n \<and> n \<le> 222 \<and> n \<noteq> 215) then char_of (n + 32) else c)"

definition py_lower :: "string \<Rightarrow> string" where
  \<comment> \<open>\<open>s.lower()\<close>\<close>
  "py_lower s = map lower_char s"

fun py_in :: "string \<Rightarrow> string \<Rightarrow> bool" where
  \<comment> \<open>\<open>sub in s\<close> on strings: \<open>sub\<close> occurs in \<open>s\<close> as a contiguous run\<close>
  "py_in sub [] = (sub = [])"
| "py_in sub (c # cs) = (prefix sub (c # cs) \<or> py_in sub cs)"

section \<open>Sentence segmentation\<close>

text \<open>
  \<^verbatim>\<open>
  def extract_sentences(page_num, text):
      sentences = re.split(r'(?<!\w\.\w.)(?<![A-Z][a-z]\.)(?<=\.|\?)\s', text)
      return [{'Page Number': page_num + 1, 'Sentence': sentence} for sentence in sentences]
  \<close>
  The pattern matches one whitespace character, under three look-behinds on the text
  before it. The look-behinds read the text before the current position, which the
  model keeps reversed (the nearest character first).
\<close>

record index_entry =
  page_number :: int
  sentence :: string

type_synonym index = "index_entry list"

definition lookbehind_abbrev :: "string \<Rightarrow> bool" where
  \<comment> \<open>\<open>\w\.\w.\<close> ends here; the dot matches any character but a newline\<close>
  "lookbehind_abbrev before =
     (case before of
        p1 # p2 # p3 # p4 # _ \<Rightarrow> is_word p4 \<and> p3 = CHR ''.'' \<and> is_word p2 \<and> p1 \<noteq> CHR 0x0A
      | _ \<Rightarrow> False)"

definition lookbehind_title :: "string \<Rightarrow> bool" where
  \<comment> \<open>\<open>[A-Z][a-z]\.\<close> ends here\<close>
  "lookbehind_title before =
     (case before of
        p1 # p2 # p3 # _ \<Rightarrow> is_upper_az p3 \<and> is_lower_az p2 \<and> p1 = CHR ''.''
      | _ \<Rightarrow> False)"

definition lookbehind_terminal :: "string \<Rightarrow> bool" where
  \<comment> \<open>\<open>\.|\?\<close> ends here\<close>
  "lookbehind_terminal before =
     (case before of p1 # _ \<Rightarrow> p1 = CHR ''.'' \<or> p1 = CHR ''?'' | _ \<Rightarrow> False)"

definition split_match :: "string \<Rightarrow> char \<Rightarrow> bool" where
  \<comment> \<open>the whole pattern matches the character \<open>c\<close> that follows \<open>rev before\<close>\<close>
  "split_match before c =
     (\<not> lookbehind_abbrev before \<and> \<not> lookbehind_title before
      \<and> lookbehind_terminal before \<and> is_space c)"

fun split_scan :: "string \<Rightarrow> string \<Rightarrow> string \<Rightarrow> string list" where
  \<comment> \<open>\<open>re.split\<close>: \<open>before\<close> is the text read so far, \<open>cur\<close> the piece being built
     (both reversed); a matched character ends the piece and is dropped\<close>
  "split_scan before cur [] = [rev cur]"
| "split_scan before cur (c # cs) =
     (if split_match before c then rev cur # split_scan (c # before) [] cs
      else split_scan (c # before) (c # cur) cs)"

definition re_split_sentences :: "string \<Rightarrow> string list" where
  "re_split_sentences text = split_scan [] [] text"

definition extract_sentences :: "nat \<Rightarrow> string \<Rightarrow> index" where
  "extract_sentences page_num text =
     map (\<lambda>s. \<lparr>page_number = int page_num + 1, sentence = s\<rparr>) (re_split_sentences text)"

section \<open>Building the index\<close>

text \<open>
  \<^verbatim>\<open>
  def preprocess_pdf(pdf_file):
      index = []
      try:
          pdf_document = fitz.open(pdf_file)
          total_pages = len(pdf_document)
          with ProcessPoolExecutor() as executor:
              futures = []
              for page_num in tqdm(range(total_pages), ...):
                  future = executor.submit(extract_sentences, page_num,
                                           pdf_document.load_page(page_num).get_text("text"))
                  futures.append(future)
              for future in as_completed(futures):
                  index.extend(future.result())
          index.sort(key=lambda x: x['Page Number'])
      except Exception as e:
          print(...)
      return index
  \<close>
  Three things can raise inside the \<open>try\<close>: opening the document, reading a page's text
  (in the submitting loop, before any result is collected), and \<open>future.result()\<close>
  (in the collecting loop, when the task of that future raised or its worker process
  died). Each is a branch of the model. The order in which \<open>as_completed\<close> yields the
  futures is a parameter: a list of positions in \<open>futures\<close>. The size of the worker pool
  is seen by the code only through that order.
\<close>

datatype error =
    OpenFailed
  | PageReadFailed
  | TaskFailed nat
  | FileNotFound
  | DecodeError
  | PatternError

type_synonym pdf_document = "(error + string) list"
  \<comment> \<open>page \<open>i\<close>: the outcome of \<open>load_page(i).get_text("text")\<close>\<close>

datatype file_content = PdfFile pdf_document | TextFile string

type_synonym filesystem = "string \<rightharpoonup> file_content"

type_synonym future = "nat \<times> string"
  \<comment> \<open>a submitted task: the arguments of \<open>extract_sentences\<close>\<close>

record scheduler =
  task_raises :: "nat \<Rightarrow> bool"
    \<comment> \<open>whether \<open>future.result()\<close> raises for the task of this page\<close>
  completion :: "nat list"
    \<comment> \<open>the order in which \<open>as_completed\<close> yields the futures\<close>

definition fitz_open :: "filesystem \<Rightarrow> string \<Rightarrow> error + pdf_document" where
  \<comment> \<open>a path without a file, or with a file that is not a document, cannot be opened\<close>
  "fitz_open fs pdf_file =
     (case fs pdf_file of Some (PdfFile doc) \<Rightarrow> Inr doc | _ \<Rightarrow> Inl OpenFailed)"

fun submit_all :: "nat \<Rightarrow> pdf_document \<Rightarrow> error + future list" where
  "submit_all page_num [] = Inr []"
| "submit_all page_num (p # ps) =
     (case p of
        Inl e \<Rightarrow> Inl e
      | Inr text \<Rightarrow>
          (case submit_all (Suc page_num) ps of
             Inl e \<Rightarrow> Inl e
           | Inr futures \<Rightarrow> Inr ((page_num, text) # futures)))"

definition future_result :: "scheduler \<Rightarrow> future \<Rightarrow> error + index" where
  "future_result sch fut =
     (if task_raises sch (fst fut) then Inl (TaskFailed (fst fut))
      else Inr (extract_sentences (fst fut) (snd fut)))"

definition as_completed :: "scheduler \<Rightarrow> future list \<Rightarrow> future list" where
  \<comment> \<open>the futures in the order of completion; a position that is not in the list
     yields nothing\<close>
  "as_completed sch futures =
     map (\<lambda>i. futures ! i) (filter (\<lambda>i. i < length futures) (completion sch))"

fun collect :: "scheduler \<Rightarrow> future list \<Rightarrow> index \<Rightarrow> error option \<times> index" where
  \<comment> \<open>the collecting loop: the index so far is threaded through, and returned with the
     exception that ended the loop, if any\<close>
  "collect sch [] index = (None, index)"
| "collect sch (fut # futs) index =
     (case future_result sch fut of
        Inl e \<Rightarrow> (Some e, index)
      | Inr entries \<Rightarrow> collect sch futs (index @ entries))"

definition preprocess_pdf :: "scheduler \<Rightarrow> filesystem \<Rightarrow> string \<Rightarrow> index" where
  "preprocess_pdf sch fs pdf_file =
     (case fitz_open fs pdf_file of
        Inl e \<Rightarrow> []
      | Inr pdf_document \<Rightarrow>
          (case submit_all 0 pdf_document of
             Inl e \<Rightarrow> []
           | Inr futures \<Rightarrow>
               (case collect sch (as_completed sch futures) [] of
                  (Some e, index) \<Rightarrow> index
                | (None, index) \<Rightarrow> sort_key page_number index)))"

definition fair :: "scheduler \<Rightarrow> nat \<Rightarrow> bool" where
  \<comment> \<open>\<open>as_completed\<close> yields each of the \<open>n\<close> futures exactly once\<close>
  "fair sch n = (mset (completion sch) = mset [0..<n])"

definition total_pages :: "filesystem \<Rightarrow> string \<Rightarrow> nat" where
  "total_pages fs pdf_file =
     (case fitz_open fs pdf_file of Inl e \<Rightarrow> 0 | Inr pdf_document \<Rightarrow> length pdf_document)"

definition task_output :: "future \<Rightarrow> index" where
  \<comment> \<open>what a task returns when it does not raise\<close>
  "task_output fut = extract_sentences (fst fut) (snd fut)"

text \<open>Example inputs: a file system holding one document, and the tasks that raise.\<close>

definition single_pdf :: "string \<Rightarrow> pdf_document \<Rightarrow> filesystem" where
  "single_pdf name doc = [name \<mapsto> PdfFile doc]"

definition no_failure :: "nat \<Rightarrow> bool" where
  "no_failure i = False"

definition page_fails :: "nat \<Rightarrow> nat \<Rightarrow> bool" where
  \<comment> \<open>only the task of page \<open>k\<close> raises\<close>
  "page_fails k i = (i = k)"

section \<open>Searching the index\<close>

text \<open>
  \<^verbatim>\<open>
  def search_keywords_in_index(index, keywords):
      all_data = []
      for entry in index:
          for keyword in keywords:
              if keyword.lower() in entry['Sentence'].lower():
                  bold_keyword_in_sentence = re.sub(f"(?i)({re.escape(keyword)})", r"<b>\1</b>",
                                                    entry['Sentence'], flags=re.IGNORECASE)
                  all_data.append({'Keyword': keyword, 'Page Number': entry['Page Number'],
                                   'Sentence': bold_keyword_in_sentence})
      return all_data
  \<close>
  The part of the \<open>re\<close> module this code uses is modelled: \<open>re.escape\<close>, the compilation of a
  pattern of the shape \<open>(?i)(...)\<close> whose group holds literal characters only (any other
  pattern is outside the model and reported as \<open>PatternError\<close>, as an ill-formed pattern
  raises \<open>re.error\<close>), and \<open>re.sub\<close> with the template \<open><b>\1</b>\<close>.
\<close>

record search_result = index_entry +
  keyword :: string

definition backslash :: char where
  "backslash = CHR 0x5C"

definition re_special :: "char \<Rightarrow> bool" where
  \<comment> \<open>the characters \<open>re.escape\<close> escapes: \<open>()[]{}?*+-|^$\.&~#\<close>, the space and
     \<open>\t \n \r \v \f\<close>\<close>
  "re_special c =
     (code_point c \<in> {40, 41, 91, 93, 123, 125, 63, 42, 43, 45, 124, 94, 36, 92, 46, 38, 126, 35,
                      32, 9, 10, 13, 11, 12})"

definition re_escape :: "string \<Rightarrow> string" where
  "re_escape s = concat (map (\<lambda>c. if re_special c then [backslash, c] else [c]) s)"

definition re_meta :: "char \<Rightarrow> bool" where
  \<comment> \<open>the characters with a meaning of their own in a pattern: \<open>.\[{()*+?^$|\<close>\<close>
  "re_meta c = (code_point c \<in> {46, 92, 91, 123, 40, 41, 42, 43, 63, 94, 36, 124})"

definition ascii_alnum :: "char \<Rightarrow> bool" where
  "ascii_alnum c =
     (let n = code_point c in
        (48 \<le> n \<and> n \<le> 57) \<or> (65 \<le> n \<and> n \<le> 90) \<or> (97 \<le> n \<and> n \<le> 122))"

fun parse_group :: "string \<Rightarrow> error + string" where
  \<comment> \<open>the body of the group up to its closing parenthesis, which must end the pattern:
     a backslash makes the next character literal (a backslash before an ASCII letter
     or digit is a class or a reference, outside the model)\<close>
  "parse_group [] = Inl PatternError"
| "parse_group (c # cs) =
     (if c = CHR '')'' then (if cs = [] then Inr [] else Inl PatternError)
      else if c = backslash then
        (case cs of
           [] \<Rightarrow> Inl PatternError
         | d # ds \<Rightarrow>
             if ascii_alnum d then Inl PatternError
             else (case parse_group ds of Inl e \<Rightarrow> Inl e | Inr lit \<Rightarrow> Inr (d # lit)))
      else if re_meta c then Inl PatternError
      else (case parse_group cs of Inl e \<Rightarrow> Inl e | Inr lit \<Rightarrow> Inr (c # lit)))"

definition re_compile :: "string \<Rightarrow> error + string" where
  \<comment> \<open>the literal a pattern \<open>(?i)(...)\<close> matches, ignoring case\<close>
  "re_compile pattern =
     (if take 5 pattern = ''(?i)('' then parse_group (drop 5 pattern) else Inl PatternError)"

fun match_here :: "string \<Rightarrow> string \<Rightarrow> bool" where
  \<comment> \<open>the literal matches at the start of the text, under \<open>IGNORECASE\<close>\<close>
  "match_here [] s = True"
| "match_here (p # ps) [] = False"
| "match_here (p # ps) (c # cs) = (lower_char c = lower_char p \<and> match_here ps cs)"

datatype piece = Copied char | Inserted string

function sub_pieces :: "string \<Rightarrow> string \<Rightarrow> piece list" where
  \<comment> \<open>\<open>re.sub\<close> scans the text from the left; at a match it emits the template (its
     literal parts inserted, group 1 copied from the text) and goes on after the match;
     an empty match is followed by the next character of the text\<close>
  "sub_pieces lit s =
     (if match_here lit s then
        Inserted ''<b>'' # map Copied (take (length lit) s) @ Inserted ''</b>'' #
          (if lit = [] then (case s of [] \<Rightarrow> [] | c # cs \<Rightarrow> Copied c # sub_pieces lit cs)
           else sub_pieces lit (drop (length lit) s))
      else (case s of [] \<Rightarrow> [] | c # cs \<Rightarrow> Copied c # sub_pieces lit cs))"
  by pat_completeness auto
termination
proof (relation "measure (\<lambda>(lit, s). length s)")
  show "wf (measure (\<lambda>(lit, s). length s))" by simp
next
  fix lit s :: string
  assume "match_here lit s" "lit \<noteq> []"
  then have "s \<noteq> []" by (cases lit; cases s) simp_all
  with \<open>lit \<noteq> []\<close> show "((lit, drop (length lit) s), (lit, s)) \<in> measure (\<lambda>(lit, s). length s)"
    by simp
qed simp_all

declare sub_pieces.simps [simp del]

fun piece_text :: "piece \<Rightarrow> string" where
  "piece_text (Copied c) = [c]"
| "piece_text (Inserted t) = t"

definition join :: "piece list \<Rightarrow> string" where
  "join ps = concat (map piece_text ps)"

definition re_sub :: "string \<Rightarrow> string \<Rightarrow> string" where
  "re_sub lit s = join (sub_pieces lit s)"

definition bold_keyword_in_sentence :: "string \<Rightarrow> string \<Rightarrow> error + string" where
  "bold_keyword_in_sentence kw s =
     (case re_compile (''(?i)('' @ re_escape kw @ '')'') of
        Inl e \<Rightarrow> Inl e
      | Inr lit \<Rightarrow> Inr (re_sub lit s))"

fun search_entry :: "index_entry \<Rightarrow> string list \<Rightarrow> search_result list \<Rightarrow> error + search_result list" where
  \<comment> \<open>the inner loop, over the keywords, for one entry\<close>
  "search_entry entry [] all_data = Inr all_data"
| "search_entry entry (kw # keywords) all_data =
     (if py_in (py_lower kw) (py_lower (sentence entry)) then
        (case bold_keyword_in_sentence kw (sentence entry) of
           Inl e \<Rightarrow> Inl e
         | Inr bold \<Rightarrow>
             search_entry entry keywords
               (all_data @ [\<lparr>page_number = page_number entry, sentence = bold, keyword = kw\<rparr>]))
      else search_entry entry keywords all_data)"

fun search_loop :: "index \<Rightarrow> string list \<Rightarrow> search_result list \<Rightarrow> error + search_result list" where
  \<comment> \<open>the outer loop, over the entries\<close>
  "search_loop [] keywords all_data = Inr all_data"
| "search_loop (entry # index) keywords all_data =
     (case search_entry entry keywords all_data of
        Inl e \<Rightarrow> Inl e
      | Inr all_data' \<Rightarrow> search_loop index keywords all_data')"

definition search_keywords_in_index :: "index \<Rightarrow> string list \<Rightarrow> error + search_result list" where
  "search_keywords_in_index index keywords = search_loop index keywords []"

text \<open>
  What the properties of a search are stated with: a keyword occurring in a sentence
  ignoring case, the occurrences a highlighting wraps, and the markers taken out of the
  text of a result.
\<close>

definition occurs_ci :: "string \<Rightarrow> string \<Rightarrow> bool" where
  \<comment> \<open>\<open>k\<close> occurs in \<open>s\<close> as a substring, ignoring case\<close>
  "occurs_ci k s = (\<exists>pre mid post. s = pre @ mid @ post \<and> py_lower mid = py_lower k)"

definition occurs_at :: "string \<Rightarrow> string \<Rightarrow> nat \<Rightarrow> bool" where
  \<comment> \<open>\<open>k\<close> occurs in \<open>s\<close> at position \<open>p\<close>, ignoring case\<close>
  "occurs_at k s p =
     (p + length k \<le> length s \<and> py_lower (take (length k) (drop p s)) = py_lower k)"

definition result_of :: "index_entry \<Rightarrow> string \<Rightarrow> search_result" where
  \<comment> \<open>the record appended for an entry and a keyword that matches it\<close>
  "result_of entry kw =
     \<lparr>page_number = page_number entry, sentence = re_sub kw (sentence entry), keyword = kw\<rparr>"

definition matches_of :: "index_entry \<Rightarrow> string list \<Rightarrow> search_result list" where
  \<comment> \<open>the records of one entry, in keyword order\<close>
  "matches_of entry keywords =
     map (result_of entry) (filter (\<lambda>kw. occurs_ci kw (sentence entry)) keywords)"









section \<open>The index cache\<close>

text \<open>
  \<^verbatim>\<open>
  def save_index_to_file(index, filename):
      with open(filename, 'w') as file:
          json.dump(index, file)

  def load_index_from_file(filename):
      with open(filename, 'r') as file:
          return json.load(file)
  \<close>
  The part of the \<open>json\<close> module these two functions use is modelled. \<open>json.dump\<close> with
  its default options writes a list of dictionaries as \<open>[{...}, {...}]\<close>, with \<open>", "\<close> and
  \<open>": "\<close> as separators and every character outside the printable ASCII range escaped.
  \<open>json.load\<close> is a scanner for the texts that denote an index: an array of objects whose
  members are \<open>"Page Number"\<close> with an integer and \<open>"Sentence"\<close> with a string, with
  optional white space between the tokens. Any other text is reported as \<open>DecodeError\<close>
  (Python raises on ill-formed JSON; well-formed JSON of another shape is outside the
  model). Writing a file is taken to succeed.
\<close>

definition dquote :: char where
  "dquote = CHR 0x22"

definition is_digit :: "char \<Rightarrow> bool" where
  "is_digit c = (48 \<le> code_point c \<and> code_point c \<le> 57)"

definition hex_digit :: "nat \<Rightarrow> char" where
  \<comment> \<open>lower case, as the format \<open>{0:04x}\<close> gives\<close>
  "hex_digit d = (if d < 10 then char_of (48 + d) else char_of (87 + d))"

definition encode_char :: "char \<Rightarrow> string" where
  \<comment> \<open>one character of a string under \<open>ensure_ascii=True\<close>\<close>
  "encode_char c =
     (let n = code_point c in
        if c = dquote then [backslash, dquote]
        else if c = backslash then [backslash, backslash]
        else if n = 10 then [backslash, CHR ''n'']
        else if n = 13 then [backslash, CHR ''r'']
        else if n = 9 then [backslash, CHR ''t'']
        else if n = 8 then [backslash, CHR ''b'']
        else if n = 12 then [backslash, CHR ''f'']
        else if 32 \<le> n \<and> n \<le> 126 then [c]
        else backslash # ''u00'' @ [hex_digit (n div 16), hex_digit (n mod 16)])"

definition encode_string :: "string \<Rightarrow> string" where
  "encode_string s = dquote # concat (map encode_char s) @ [dquote]"

fun digits :: "nat \<Rightarrow> string" where
  \<comment> \<open>the decimal digits of a natural number\<close>
  "digits n = (if n < 10 then [char_of (48 + n)] else digits (n div 10) @ [char_of (48 + n mod 10)])"

declare digits.simps [simp del]

definition encode_int :: "int \<Rightarrow> string" where
  "encode_int i = (if i < 0 then CHR ''-'' # digits (nat (- i)) else digits (nat i))"

definition encode_entry :: "index_entry \<Rightarrow> string" where
  "encode_entry e =
     ''{'' @ encode_string ''Page Number'' @ '': '' @ encode_int (page_number e) @ '', ''
       @ encode_string ''Sentence'' @ '': '' @ encode_string (sentence e) @ ''}''"

fun encode_entries :: "index \<Rightarrow> string" where
  "encode_entries [] = []"
| "encode_entries [e] = encode_entry e"
| "encode_entries (e # es) = encode_entry e @ '', '' @ encode_entries es"

definition json_dumps :: "index \<Rightarrow> string" where
  "json_dumps index = ''['' @ encode_entries index @ '']''"

datatype token =
  LBracket | RBracket | LBrace | RBrace | Colon | Comma | TString string | TInt int

datatype lex_state =
    Idle
  | InString string
  | InEscape string
  | InUnicode string "nat list"
  | InNumber bool string

definition is_json_space :: "char \<Rightarrow> bool" where
  "is_json_space c = (code_point c \<in> {32, 9, 10, 13})"

definition punctuation :: "char \<Rightarrow> token option" where
  "punctuation c =
     (if c = CHR ''['' then Some LBracket else if c = CHR '']'' then Some RBracket
      else if c = CHR ''{'' then Some LBrace else if c = CHR ''}'' then Some RBrace
      else if c = CHR '':'' then Some Colon else if c = CHR '','' then Some Comma
      else None)"

definition unescape :: "char \<Rightarrow> char option" where
  \<comment> \<open>the character a two-character escape stands for\<close>
  "unescape c =
     (if c = dquote then Some dquote else if c = backslash then Some backslash
      else if c = CHR ''/'' then Some (CHR ''/'')
      else if c = CHR ''b'' then Some (char_of (8::nat))
      else if c = CHR ''f'' then Some (char_of (12::nat))
      else if c = CHR ''n'' then Some (char_of (10::nat))
      else if c = CHR ''r'' then Some (char_of (13::nat))
      else if c = CHR ''t'' then Some (char_of (9::nat))
      else None)"

definition hex_value :: "char \<Rightarrow> nat option" where
  "hex_value c =
     (let n = code_point c in
        if 48 \<le> n \<and> n \<le> 57 then Some (n - 48)
        else if 97 \<le> n \<and> n \<le> 102 then Some (n - 87)
        else if 65 \<le> n \<and> n \<le> 70 then Some (n - 55)
        else None)"

definition digits_value :: "string \<Rightarrow> nat" where
  "digits_value ds = foldl (\<lambda>n c. 10 * n + (code_point c - 48)) 0 ds"

definition finish_number :: "bool \<Rightarrow> string \<Rightarrow> token option" where
  \<comment> \<open>the digits read (in reverse): at least one, and no leading zero before another\<close>
  "finish_number neg ds =
     (if ds = [] \<or> (length ds > 1 \<and> last ds = CHR ''0'') then None
      else Some (TInt (if neg then - int (digits_value (rev ds)) else int (digits_value (rev ds)))))"

definition emit :: "token \<Rightarrow> token list option \<Rightarrow> token list option" where
  "emit t r = map_option (Cons t) r"

definition emit_number :: "bool \<Rightarrow> string \<Rightarrow> token list option \<Rightarrow> token list option" where
  "emit_number neg ds r = (case finish_number neg ds of None \<Rightarrow> None | Some t \<Rightarrow> emit t r)"

fun json_scan :: "lex_state \<Rightarrow> string \<Rightarrow> token list option" where
  \<comment> \<open>the scanner, one character at a time; a Unicode escape above 255 is outside the
     model, and so is a number with a fraction or an exponent\<close>
  "json_scan Idle [] = Some []"
| "json_scan (InNumber neg ds) [] = emit_number neg ds (Some [])"
| "json_scan st [] = None"
| "json_scan Idle (c # cs) =
     (if is_json_space c then json_scan Idle cs
      else if c = dquote then json_scan (InString []) cs
      else if c = CHR ''-'' then json_scan (InNumber True []) cs
      else if is_digit c then json_scan (InNumber False [c]) cs
      else (case punctuation c of Some t \<Rightarrow> emit t (json_scan Idle cs) | None \<Rightarrow> None))"
| "json_scan (InString acc) (c # cs) =
     (if c = dquote then emit (TString (rev acc)) (json_scan Idle cs)
      else if c = backslash then json_scan (InEscape acc) cs
      else if code_point c < 32 then None
      else json_scan (InString (c # acc)) cs)"
| "json_scan (InEscape acc) (c # cs) =
     (if c = CHR ''u'' then json_scan (InUnicode acc []) cs
      else (case unescape c of Some d \<Rightarrow> json_scan (InString (d # acc)) cs | None \<Rightarrow> None))"
| "json_scan (InUnicode acc hex) (c # cs) =
     (case hex_value c of
        None \<Rightarrow> None
      | Some v \<Rightarrow>
          if length hex < 3 then json_scan (InUnicode acc (hex @ [v])) cs
          else (let n = foldl (\<lambda>n d. 16 * n + d) 0 (hex @ [v])
                in if n < 256 then json_scan (InString (char_of n # acc)) cs else None))"
| "json_scan (InNumber neg ds) (c # cs) =
     (if is_digit c then json_scan (InNumber neg (c # ds)) cs
      else if is_json_space c then emit_number neg ds (json_scan Idle cs)
      else (case punctuation c of
              Some t \<Rightarrow> emit_number neg ds (emit t (json_scan Idle cs))
            | None \<Rightarrow> None))"

fun scalar :: "token \<Rightarrow> bool" where
  "scalar (TString s) = True"
| "scalar (TInt i) = True"
| "scalar t = False"

definition entry_of_object :: "(string \<times> token) list \<Rightarrow> index_entry option" where
  \<comment> \<open>the entry an object denotes; of two members with one key the later counts\<close>
  "entry_of_object kvs =
     (case (map_of (rev kvs) ''Page Number'', map_of (rev kvs) ''Sentence'') of
        (Some (TInt p), Some (TString s)) \<Rightarrow>
          if list_all (\<lambda>k. k = ''Page Number'' \<or> k = ''Sentence'') (map fst kvs)
          then Some \<lparr>page_number = p, sentence = s\<rparr> else None
      | _ \<Rightarrow> None)"

datatype parse_state =
    ExpectObject
  | ExpectKey "(string \<times> token) list"
  | ExpectColon "(string \<times> token) list" string
  | ExpectValue "(string \<times> token) list" string
  | AfterValue "(string \<times> token) list"
  | AfterObject

fun parse :: "parse_state \<Rightarrow> token list \<Rightarrow> index option" where
  \<comment> \<open>the objects of the array, after its opening bracket, one token at a time\<close>
  "parse st [] = None"
| "parse ExpectObject (t # ts) = (case t of LBrace \<Rightarrow> parse (ExpectKey []) ts | _ \<Rightarrow> None)"
| "parse (ExpectKey kvs) (t # ts) =
     (case t of TString k \<Rightarrow> parse (ExpectColon kvs k) ts | _ \<Rightarrow> None)"
| "parse (ExpectColon kvs k) (t # ts) =
     (case t of Colon \<Rightarrow> parse (ExpectValue kvs k) ts | _ \<Rightarrow> None)"
| "parse (ExpectValue kvs k) (t # ts) =
     (if scalar t then parse (AfterValue (kvs @ [(k, t)])) ts else None)"
| "parse (AfterValue kvs) (t # ts) =
     (case t of
        Comma \<Rightarrow> parse (ExpectKey kvs) ts
      | RBrace \<Rightarrow>
          (case entry_of_object kvs of
             None \<Rightarrow> None
           | Some e \<Rightarrow> map_option (Cons e) (parse AfterObject ts))
      | _ \<Rightarrow> None)"
| "parse AfterObject (t # ts) =
     (case t of
        Comma \<Rightarrow> parse ExpectObject ts
      | RBracket \<Rightarrow> (if ts = [] then Some [] else None)
      | _ \<Rightarrow> None)"

definition parse_index :: "token list \<Rightarrow> index option" where
  "parse_index ts =
     (case ts of
        LBracket # RBracket # rest \<Rightarrow> (if rest = [] then Some [] else None)
      | LBracket # rest \<Rightarrow> parse ExpectObject rest
      | _ \<Rightarrow> None)"

definition json_loads :: "string \<Rightarrow> error + index" where
  "json_loads s =
     (case json_scan Idle s of
        None \<Rightarrow> Inl DecodeError
      | Some ts \<Rightarrow> (case parse_index ts of None \<Rightarrow> Inl DecodeError | Some index \<Rightarrow> Inr index))"

definition save_index_to_file :: "index \<Rightarrow> string \<Rightarrow> filesystem \<Rightarrow> filesystem" where
  "save_index_to_file index filename fs = fs(filename \<mapsto> TextFile (json_dumps index))"

definition load_index_from_file :: "filesystem \<Rightarrow> string \<Rightarrow> error + index" where
  "load_index_from_file fs filename =
     (case fs filename of
        None \<Rightarrow> Inl FileNotFound
      | Some (PdfFile doc) \<Rightarrow> Inl DecodeError
      | Some (TextFile s) \<Rightarrow> json_loads s)"

text \<open>The tokens of the text that \<open>json_dumps\<close> writes.\<close>

definition entry_tokens :: "index_entry \<Rightarrow> token list" where
  "entry_tokens e =
     [LBrace, TString ''Page Number'', Colon, TInt (page_number e), Comma,
      TString ''Sentence'', Colon, TString (sentence e), RBrace]"

fun entries_tokens :: "index \<Rightarrow> token list" where
  "entries_tokens [] = []"
| "entries_tokens [e] = entry_tokens e"
| "entries_tokens (e # es) = entry_tokens e @ Comma # entries_tokens es"

definition emits :: "token list \<Rightarrow> token list option \<Rightarrow> token list option" where
  "emits ts r = map_option (append ts) r"

section \<open>A search request\<close>

text \<open>
  \<^verbatim>\<open>
  def search_keywords_in_pdf(pdf_file, keywords):
      if not os.path.isfile(pdf_file):
          print("No such file:", os.path.basename(pdf_file))
          return [], 0.0
      start_time = time.time()
      if os.path.isfile(INDEX_FILE_PATH):
          index = load_index_from_file(INDEX_FILE_PATH)
      else:
          index = preprocess_pdf(pdf_file)
          save_index_to_file(index, INDEX_FILE_PATH)
      found_data = search_keywords_in_index(index, keywords)
      end_time = time.time()
      duration = end_time - start_time
      return found_data, duration
  \<close>
  The two readings of the clock are parameters, taken as real numbers. The file system is
  threaded through; an exception of the loading or of the search leaves the function.
\<close>

definition INDEX_FILE_PATH :: string where
  "INDEX_FILE_PATH = ''Resources/index.json''"

record clock =
  start_time :: real
  end_time :: real

definition os_path_isfile :: "filesystem \<Rightarrow> string \<Rightarrow> bool" where
  "os_path_isfile fs path = (fs path \<noteq> None)"

definition search_keywords_in_pdf ::
  "scheduler \<Rightarrow> clock \<Rightarrow> filesystem \<Rightarrow> string \<Rightarrow> string list
     \<Rightarrow> (error + search_result list \<times> real) \<times> filesystem" where
  "search_keywords_in_pdf sch clk fs pdf_file kws =
     (if \<not> os_path_isfile fs pdf_file then (Inr ([], 0), fs)
      else
        (let (loaded, fs') =
               (if os_path_isfile fs INDEX_FILE_PATH
                then (load_index_from_file fs INDEX_FILE_PATH, fs)
                else (let index = preprocess_pdf sch fs pdf_file
                      in (Inr index, save_index_to_file index INDEX_FILE_PATH fs)))
         in case loaded of
              Inl e \<Rightarrow> (Inl e, fs')
            | Inr index \<Rightarrow>
                (case search_keywords_in_index index kws of
                   Inl e \<Rightarrow> (Inl e, fs')
                 | Inr found_data \<Rightarrow> (Inr (found_data, end_time clk - start_time clk), fs'))))"

text \<open>Example file systems: the document is missing; the document and a cached index
  of one sentence are there.\<close>

definition no_files :: filesystem where
  "no_files = Map.empty"

definition cached_files :: filesystem where
  "cached_files =
     [''Resources/physText.pdf'' \<mapsto> PdfFile [Inr ''It moves.''],
      INDEX_FILE_PATH \<mapsto> TextFile (json_dumps [\<lparr>page_number = 1, sentence = ''It moves.''\<rparr>])]"

section \<open>Segmentation: results\<close>

lemmas segment_defs =
  extract_sentences_def re_split_sentences_def split_match_def lookbehind_abbrev_def
  lookbehind_title_def lookbehind_terminal_def is_space_def is_word_def is_upper_az_def
  is_lower_az_def code_point_def

lemma segment_two_sentences:
  "extract_sentences 0 ''It holds. It is foundational.'' =
     [\<lparr>page_number = 1, sentence = ''It holds.''\<rparr>,
      \<lparr>page_number = 1, sentence = ''It is foundational.''\<rparr>]"
  by (simp add: segment_defs)

lemma segment_abbreviations:
  "map sentence (extract_sentences 4 ''In the U.S. Mr. Jones met Dr. No. Ok? Yes. '') =
     [''In the U.S. Mr. Jones met Dr. No. Ok?'', ''Yes.'', []]"
  by (simp add: segment_defs)

lemma split_scan_not_empty: "split_scan before cur text \<noteq> []"
  by (induction "text" arbitrary: before cur) simp_all

lemma extract_sentences_not_empty: "extract_sentences page_num text \<noteq> []"
  by (simp add: extract_sentences_def re_split_sentences_def split_scan_not_empty)

lemma page_number_extract_sentences:
  "e \<in> set (extract_sentences page_num text) \<Longrightarrow> page_number e = int page_num + 1"
  by (auto simp: extract_sentences_def)

text \<open>
  C3 (as stated, refuted). Segmenting the empty page text does not give the empty
  sequence: \<open>re.split\<close> returns the whole text as one piece when nothing matches, so page 0
  with empty text gives one entry, with the empty sentence.
\<close>

theorem extract_sentences_empty_text_counterexample:
  "extract_sentences 0 [] \<noteq> [] \<and>
   extract_sentences 0 [] = [\<lparr>page_number = 1, sentence = []\<rparr>]"
  by (simp add: extract_sentences_def re_split_sentences_def)

text \<open>
  C3 (amended). For every page index, segmenting the empty page text yields exactly one
  entry: its sentence is the empty string and its page number is the page index plus one.
\<close>

theorem extract_sentences_empty_text:
  "extract_sentences page_num [] = [\<lparr>page_number = int page_num + 1, sentence = []\<rparr>]"
  by (simp add: extract_sentences_def re_split_sentences_def)

section \<open>The build: results\<close>

lemma submit_all_Inr:
  "submit_all n doc = Inr futs \<Longrightarrow> map fst futs = [n..<n + length doc]"
proof (induction doc arbitrary: n futs)
  case Nil
  then show ?case by simp
next
  case (Cons p ps)
  from Cons.prems obtain t futs' where
    rest: "submit_all (Suc n) ps = Inr futs'" and futs: "futs = (n, t) # futs'"
    by (auto split: sum.splits)
  from Cons.IH [OF rest] have "map fst futs' = [Suc n..<Suc n + length ps]" .
  moreover have "[n..<n + length (p # ps)] = n # [Suc n..<Suc n + length ps]"
    using upt_conv_Cons [of n "n + length (p # ps)"] by simp
  ultimately show ?case using futs by simp
qed

lemma submit_all_Inl:
  "i < length doc \<Longrightarrow> isl (doc ! i) \<Longrightarrow> isl (submit_all n doc)"
proof (induction doc arbitrary: n i)
  case Nil
  then show ?case by simp
next
  case (Cons p ps)
  show ?case
  proof (cases i)
    case 0
    with Cons.prems show ?thesis by (auto split: sum.splits)
  next
    case (Suc j)
    with Cons.prems have "isl (submit_all (Suc n) ps)"
      by (intro Cons.IH [of j]) simp_all
    then show ?thesis by (auto split: sum.splits)
  qed
qed

lemma collect_all:
  "\<forall>fut \<in> set futs. \<not> task_raises sch (fst fut) \<Longrightarrow>
   collect sch futs index = (None, index @ concat (map task_output futs))"
  by (induction futs arbitrary: index) (auto simp: future_result_def task_output_def)

lemma page_number_task_output:
  "e \<in> set (task_output fut) \<Longrightarrow> page_number e = int (fst fut) + 1"
  by (auto simp: task_output_def extract_sentences_def)

lemma filter_task_output:
  "filter (\<lambda>e. page_number e = int k + 1) (task_output fut) =
     (if fst fut = k then task_output fut else [])"
  by (auto simp: filter_empty_conv filter_id_conv dest: page_number_task_output)

lemma filter_concat_outputs:
  "filter (\<lambda>e. page_number e = int k + 1) (concat (map task_output futs))
     = concat (map task_output (filter (\<lambda>fut. fst fut = k) futs))"
  by (induction futs) (simp_all add: filter_task_output)

lemma sorted_outputs:
  "sorted (map fst futs) \<Longrightarrow> sorted (map page_number (concat (map task_output futs)))"
proof (induction futs)
  case Nil
  then show ?case by simp
next
  case (Cons f fs)
  have "page_number a \<le> page_number b"
    if "a \<in> set (task_output f)" "g \<in> set fs" "b \<in> set (task_output g)" for a b g
  proof -
    from Cons.prems that(2) have "fst f \<le> fst g" by auto
    with that show ?thesis by (simp add: page_number_task_output)
  qed
  moreover have "sorted (map page_number (task_output f))"
    by (simp add: task_output_def extract_sentences_def o_def sorted_iff_nth_mono)
  ultimately show ?case using Cons by (auto simp: sorted_append)
qed

text \<open>Among futures with distinct page numbers, a page number selects the same future
  whatever the order.\<close>

lemma filter_key_unique:
  assumes "mset xs = mset ys" and "distinct (map fst ys)"
  shows "filter (\<lambda>fut. fst fut = k) xs = filter (\<lambda>fut. fst fut = (k::nat)) ys"
proof -
  let ?P = "\<lambda>fut::nat \<times> 'a. fst fut = k"
  have m: "mset (filter ?P xs) = mset (filter ?P ys)"
    using assms(1) by simp
  have "distinct (map fst (filter ?P ys))"
    using assms(2) by (simp add: distinct_map_filter)
  moreover have "set (map fst (filter ?P ys)) \<subseteq> {k}" by auto
  ultimately have "length (map fst (filter ?P ys)) \<le> 1"
    by (metis card_mono card.empty card_insert_disjoint distinct_card finite.emptyI
        finite.insertI empty_iff One_nat_def)
  then have "length (filter ?P ys) \<le> 1" by simp
  then show ?thesis
    using m by (cases "filter ?P ys"; cases "filter ?P xs") auto
qed

lemma mset_outputs:
  assumes "mset xs = mset ys"
  shows "mset (concat (map task_output xs)) = mset (concat (map task_output ys))"
proof -
  have "mset (concat (map task_output zs))
      = sum_mset (image_mset (\<lambda>fut. mset (task_output fut)) (mset zs))" for zs
    by (induction zs) simp_all
  with assms show ?thesis by simp
qed

lemma mset_as_completed:
  assumes "fair sch (length futs)"
  shows "mset (as_completed sch futs) = mset futs"
proof -
  have "set (completion sch) = set [0..<length futs]"
    using assms unfolding fair_def by (rule mset_eq_setD)
  then have "filter (\<lambda>i. i < length futs) (completion sch) = completion sch"
    by (intro filter_True) auto
  then have "mset (as_completed sch futs) = image_mset (\<lambda>i. futs ! i) (mset (completion sch))"
    by (simp add: as_completed_def)
  also have "\<dots> = mset (map (\<lambda>i. futs ! i) [0..<length futs])"
    using assms by (simp add: fair_def)
  also have "\<dots> = mset futs"
    by (simp only: map_nth)
  finally show ?thesis .
qed

text \<open>The stable sort by page number puts the collected blocks back in page order.\<close>

lemma sort_outputs:
  assumes perm: "mset xs = mset ys" and srt: "sorted (map fst ys)"
    and dist: "distinct (map fst ys)"
  shows "sort_key page_number (concat (map task_output xs)) = concat (map task_output ys)"
proof (rule properties_for_sort_key)
  show "mset (concat (map task_output ys)) = mset (concat (map task_output xs))"
    by (rule mset_outputs [OF perm [symmetric]])
next
  fix e assume "e \<in> set (concat (map task_output ys))"
  then obtain fut where "fut \<in> set ys" "e \<in> set (task_output fut)" by auto
  then have key: "page_number e = int (fst fut) + 1" by (simp add: page_number_task_output)
  have "filter (\<lambda>x. page_number x = int (fst fut) + 1) (concat (map task_output ys))
      = filter (\<lambda>x. page_number x = int (fst fut) + 1) (concat (map task_output xs))"
    by (simp only: filter_concat_outputs filter_key_unique [OF perm dist])
  then show "filter (\<lambda>x. page_number e = page_number x) (concat (map task_output ys))
      = filter (\<lambda>x. page_number e = page_number x) (concat (map task_output xs))"
    by (simp add: key eq_commute)
next
  show "sorted (map page_number (concat (map task_output ys)))"
    using srt by (rule sorted_outputs)
qed

lemma preprocess_pdf_complete:
  assumes opened: "fitz_open fs pdf_file = Inr doc"
    and submitted: "submit_all 0 doc = Inr futs"
    and fair: "fair sch (length doc)"
    and ok: "\<forall>i<length doc. \<not> task_raises sch i"
  shows "preprocess_pdf sch fs pdf_file = concat (map task_output futs)"
proof -
  have fsts: "map fst futs = [0..<length doc]"
    using submit_all_Inr [OF submitted] by simp
  then have len: "length futs = length doc"
    by (metis length_map length_upt diff_zero)
  have perm: "mset (as_completed sch futs) = mset futs"
    using fair len by (simp add: mset_as_completed)
  have "\<forall>fut \<in> set futs. \<not> task_raises sch (fst fut)"
  proof
    fix fut assume "fut \<in> set futs"
    then have "fst fut \<in> set (map fst futs)" by simp
    with fsts ok show "\<not> task_raises sch (fst fut)" by simp
  qed
  with perm have "\<forall>fut \<in> set (as_completed sch futs). \<not> task_raises sch (fst fut)"
    by (metis mset_eq_setD)
  then have "collect sch (as_completed sch futs) []
      = (None, concat (map task_output (as_completed sch futs)))"
    by (simp add: collect_all)
  moreover have "sort_key page_number (concat (map task_output (as_completed sch futs)))
      = concat (map task_output futs)"
    using perm fsts by (intro sort_outputs) simp_all
  ultimately show ?thesis
    using opened submitted by (simp add: preprocess_pdf_def)
qed

lemma preprocess_pdf_not_opened:
  "fitz_open fs pdf_file = Inl e \<Longrightarrow> preprocess_pdf sch fs pdf_file = []"
  by (simp add: preprocess_pdf_def)

lemma preprocess_pdf_not_submitted:
  "fitz_open fs pdf_file = Inr doc \<Longrightarrow> submit_all 0 doc = Inl e \<Longrightarrow>
   preprocess_pdf sch fs pdf_file = []"
  by (simp add: preprocess_pdf_def)

lemmas build_defs = preprocess_pdf_def fitz_open_def single_pdf_def as_completed_def
  future_result_def page_fails_def no_failure_def

lemma preprocess_pdf_sorted:
  assumes "\<forall>i. \<not> task_raises sch i"
  shows "sorted (map page_number (preprocess_pdf sch fs pdf_file))"
proof -
  have "fst (collect sch futs index) = None" for futs index
    using assms by (induction futs arbitrary: index) (simp_all add: future_result_def)
  then show ?thesis
    by (auto simp: preprocess_pdf_def split: sum.splits prod.splits option.splits)
       (metis fst_conv option.distinct(1))
qed

text \<open>
  When no task raises, the index does not depend on the order in which the tasks
  complete: two builds of the same document whose schedulers yield every future exactly
  once return the same index, the concatenation of the pages' results in page order
  (\<open>preprocess_pdf_complete\<close>). Documents that cannot be opened or read are included: both
  builds return the empty index.
\<close>

lemma preprocess_pdf_order_independent:
  assumes fair1: "fair sch1 (total_pages fs pdf_file)"
    and fair2: "fair sch2 (total_pages fs pdf_file)"
    and ok1: "\<forall>i<total_pages fs pdf_file. \<not> task_raises sch1 i"
    and ok2: "\<forall>i<total_pages fs pdf_file. \<not> task_raises sch2 i"
  shows "preprocess_pdf sch1 fs pdf_file = preprocess_pdf sch2 fs pdf_file"
proof (cases "fitz_open fs pdf_file")
  case (Inl e)
  then show ?thesis by (simp add: preprocess_pdf_not_opened)
next
  case (Inr doc)
  then have n: "total_pages fs pdf_file = length doc" by (simp add: total_pages_def)
  show ?thesis
  proof (cases "submit_all 0 doc")
    case (Inl e)
    with Inr show ?thesis by (simp add: preprocess_pdf_not_submitted)
  next
    case submitted: (Inr futs)
    have "preprocess_pdf sch1 fs pdf_file = concat (map task_output futs)"
      using Inr submitted fair1 ok1 unfolding n by (rule preprocess_pdf_complete)
    moreover have "preprocess_pdf sch2 fs pdf_file = concat (map task_output futs)"
      using Inr submitted fair2 ok2 unfolding n by (rule preprocess_pdf_complete)
    ultimately show ?thesis by simp
  qed
qed

text \<open>
  C1 (the code at the failing input). Three pages, and the task of page 3 raises in both
  builds. One build collects the futures in the order page 2, page 1, page 3, the other in
  page order; each scheduler yields every future exactly once. The exception skips the
  sort, and the two builds return different indexes: the same entries in two orders.
\<close>

theorem preprocess_pdf_order_dependent_after_task_error:
  "fair \<lparr>task_raises = page_fails 2, completion = [1, 0, 2]\<rparr> 3
   \<and> fair \<lparr>task_raises = page_fails 2, completion = [0, 1, 2]\<rparr> 3
   \<and> preprocess_pdf \<lparr>task_raises = page_fails 2, completion = [1, 0, 2]\<rparr>
        (single_pdf ''doc.pdf'' [Inr ''One.'', Inr ''Two.'', Inr ''Three.'']) ''doc.pdf''
       = [\<lparr>page_number = 2, sentence = ''Two.''\<rparr>, \<lparr>page_number = 1, sentence = ''One.''\<rparr>]
   \<and> preprocess_pdf \<lparr>task_raises = page_fails 2, completion = [0, 1, 2]\<rparr>
        (single_pdf ''doc.pdf'' [Inr ''One.'', Inr ''Two.'', Inr ''Three.'']) ''doc.pdf''
       = [\<lparr>page_number = 1, sentence = ''One.''\<rparr>, \<lparr>page_number = 2, sentence = ''Two.''\<rparr>]"
proof -
  have three: "[0..<3] = [0, Suc 0, 2]"
    by (simp add: upt_conv_Cons numeral_3_eq_3)
  have "fair \<lparr>task_raises = page_fails 2, completion = [1, 0, 2]\<rparr> 3"
    by (simp add: fair_def three)
  moreover have "fair \<lparr>task_raises = page_fails 2, completion = [0, 1, 2]\<rparr> 3"
    by (simp add: fair_def three)
  moreover have "preprocess_pdf \<lparr>task_raises = page_fails 2, completion = [1, 0, 2]\<rparr>
        (single_pdf ''doc.pdf'' [Inr ''One.'', Inr ''Two.'', Inr ''Three.'']) ''doc.pdf''
       = [\<lparr>page_number = 2, sentence = ''Two.''\<rparr>, \<lparr>page_number = 1, sentence = ''One.''\<rparr>]"
    by (simp add: build_defs segment_defs)
  moreover have "preprocess_pdf \<lparr>task_raises = page_fails 2, completion = [0, 1, 2]\<rparr>
        (single_pdf ''doc.pdf'' [Inr ''One.'', Inr ''Two.'', Inr ''Three.'']) ''doc.pdf''
       = [\<lparr>page_number = 1, sentence = ''One.''\<rparr>, \<lparr>page_number = 2, sentence = ''Two.''\<rparr>]"
    by (simp add: build_defs segment_defs)
  ultimately show ?thesis by (intro conjI)
qed

text \<open>
  C4 (as stated, refuted). A task that raises does not empty the index: \<open>future.result()\<close>
  raises inside the collecting loop, after the results of the futures yielded before it
  were appended, and \<open>return index\<close> returns them. Two pages, completing in page order,
  the task of the second raising: the index holds the entries of the first page.
\<close>

theorem preprocess_pdf_task_error_counterexample:
  "task_raises \<lparr>task_raises = page_fails 1, completion = [0, 1]\<rparr> 1 \<and>
   preprocess_pdf \<lparr>task_raises = page_fails 1, completion = [0, 1]\<rparr>
     (single_pdf ''doc.pdf'' [Inr ''One.'', Inr ''Two.'']) ''doc.pdf''
     = [\<lparr>page_number = 1, sentence = ''One.''\<rparr>]"
  by (simp add: build_defs segment_defs)

text \<open>
  C4 (amended). If the document cannot be opened, or reading the text of any of its pages
  raises, \<open>preprocess_pdf\<close> returns the empty index, whatever the scheduler does: both
  errors are raised before any result is collected.
\<close>

theorem preprocess_pdf_read_error:
  assumes "fitz_open fs pdf_file = Inl e \<or>
     (\<exists>doc i. fitz_open fs pdf_file = Inr doc \<and> i < length doc \<and> isl (doc ! i))"
  shows "preprocess_pdf sch fs pdf_file = []"
  using assms
proof (elim disjE exE conjE)
  assume "fitz_open fs pdf_file = Inl e"
  then show ?thesis by (rule preprocess_pdf_not_opened)
next
  fix doc i
  assume opened: "fitz_open fs pdf_file = Inr doc" and "i < length doc" "isl (doc ! i)"
  then have "isl (submit_all 0 doc)" by (simp add: submit_all_Inl)
  then obtain e' where "submit_all 0 doc = Inl e'" by (cases "submit_all 0 doc") auto
  with opened show ?thesis by (simp add: preprocess_pdf_not_submitted)
qed

text \<open>Two pages, the text of the second cannot be read.\<close>

theorem preprocess_pdf_read_error_witness:
  "preprocess_pdf \<lparr>task_raises = no_failure, completion = [1, 0]\<rparr>
     (single_pdf ''doc.pdf'' [Inr ''One.'', Inl PageReadFailed]) ''doc.pdf'' = []"
proof -
  have "fitz_open (single_pdf ''doc.pdf'' [Inr ''One.'', Inl PageReadFailed]) ''doc.pdf''
          = Inr [Inr ''One.'', Inl PageReadFailed]
        \<and> Suc 0 < length [Inr ''One.'' :: error + string, Inl PageReadFailed]
        \<and> isl ([Inr ''One.'' :: error + string, Inl PageReadFailed] ! Suc 0)"
    by (simp add: fitz_open_def single_pdf_def)
  then show ?thesis
    by (intro preprocess_pdf_read_error [where e = OpenFailed]) blast
qed

text \<open>
  C6 (the code at the failing input). Three pages; the futures are yielded in the order
  page 2, page 1, page 3, and the task of page 3 raises. The sort is skipped and the
  index returned has page number 2 before page number 1. (When no task raises, the index
  is sorted: \<open>preprocess_pdf_sorted\<close>.)
\<close>

theorem preprocess_pdf_unsorted_after_task_error:
  "preprocess_pdf \<lparr>task_raises = page_fails 2, completion = [1, 0, 2]\<rparr>
     (single_pdf ''doc.pdf'' [Inr ''One.'', Inr ''Two.'', Inr ''Three.'']) ''doc.pdf''
     = [\<lparr>page_number = 2, sentence = ''Two.''\<rparr>, \<lparr>page_number = 1, sentence = ''One.''\<rparr>]"
  by (simp add: build_defs segment_defs)

section \<open>The search: results\<close>

lemma special_not_alnum: "re_special c \<Longrightarrow> \<not> ascii_alnum c"
  by (auto simp: re_special_def ascii_alnum_def Let_def)

lemma not_special_plain:
  "\<not> re_special c \<Longrightarrow> c \<noteq> CHR '')'' \<and> c \<noteq> backslash \<and> \<not> re_meta c"
  by (auto simp: re_special_def re_meta_def backslash_def code_point_def)

lemma backslash_not_paren: "backslash \<noteq> CHR '')''"
  by (simp add: backslash_def)

lemma parse_group_escape: "parse_group (re_escape k @ '')'') = Inr k"
proof (induction k)
  case Nil
  then show ?case by (simp add: re_escape_def)
next
  case (Cons c k)
  have step: "re_escape (c # k) = (if re_special c then [backslash, c] else [c]) @ re_escape k"
    by (simp add: re_escape_def)
  show ?case
  proof (cases "re_special c")
    case True
    then show ?thesis
      using Cons.IH by (simp add: step special_not_alnum backslash_not_paren)
  next
    case False
    then show ?thesis
      using Cons.IH not_special_plain [OF False] by (simp add: step)
  qed
qed

lemma re_compile_escape: "re_compile (''(?i)('' @ re_escape k @ '')'') = Inr k"
  by (simp add: re_compile_def parse_group_escape)

lemma bold_keyword_in_sentence_eq: "bold_keyword_in_sentence k s = Inr (re_sub k s)"
  unfolding bold_keyword_in_sentence_def re_compile_escape by simp



lemma py_in_sublist: "py_in sub s \<longleftrightarrow> sublist sub s"
  by (induction s) (simp_all add: sublist_Cons_right)

lemma py_in_occurs_ci: "py_in (py_lower k) (py_lower s) \<longleftrightarrow> occurs_ci k s"
proof
  assume "py_in (py_lower k) (py_lower s)"
  then have "\<exists>ps ss. map lower_char s = ps @ (map lower_char k @ ss)"
    by (simp add: py_in_sublist sublist_def py_lower_def)
  then obtain ps ss where "map lower_char s = ps @ (map lower_char k @ ss)"
    by (elim exE)
  then have "\<exists>pre rest. s = pre @ rest \<and> ps = map lower_char pre
      \<and> map lower_char k @ ss = map lower_char rest"
    by (simp only: map_eq_append_conv)
  then obtain pre rest where s: "s = pre @ rest"
    and rest: "map lower_char rest = map lower_char k @ ss"
    by (elim exE conjE) simp
  from rest have "\<exists>mid post. rest = mid @ post \<and> map lower_char k = map lower_char mid
      \<and> ss = map lower_char post"
    by (simp only: map_eq_append_conv)
  then obtain mid post where "rest = mid @ post" "map lower_char mid = map lower_char k"
    by (elim exE conjE) simp
  with s have "s = pre @ mid @ post \<and> py_lower mid = py_lower k"
    by (simp add: py_lower_def)
  then show "occurs_ci k s"
    unfolding occurs_ci_def by (intro exI)
next
  assume "occurs_ci k s"
  then obtain pre mid post where "s = pre @ mid @ post" "py_lower mid = py_lower k"
    unfolding occurs_ci_def by (elim exE conjE)
  then have "py_lower s = py_lower pre @ py_lower k @ py_lower post"
    by (simp add: py_lower_def)
  then have "sublist (py_lower k) (py_lower s)"
    unfolding sublist_def by (intro exI)
  then show "py_in (py_lower k) (py_lower s)"
    by (simp add: py_in_sublist)
qed

lemma search_entry_eq:
  "search_entry entry keywords all_data = Inr (all_data @ matches_of entry keywords)"
  by (induction "keywords" arbitrary: all_data)
     (simp_all add: matches_of_def result_of_def bold_keyword_in_sentence_eq py_in_occurs_ci)

lemma search_loop_eq:
  "search_loop index keywords all_data
     = Inr (all_data @ concat (map (\<lambda>entry. matches_of entry keywords) index))"
  by (induction index arbitrary: all_data) (simp_all add: search_entry_eq)

lemma search_keywords_in_index_eq:
  "search_keywords_in_index index keywords
     = Inr (concat (map (\<lambda>entry. matches_of entry keywords) index))"
  by (simp add: search_keywords_in_index_def search_loop_eq)




lemma sub_pieces_empty_Nil: "sub_pieces [] [] = [Inserted ''<b>'', Inserted ''</b>'']"
  by (subst sub_pieces.simps) simp

lemma sub_pieces_empty_Cons:
  "sub_pieces [] (c # cs) = Inserted ''<b>'' # Inserted ''</b>'' # Copied c # sub_pieces [] cs"
  by (subst sub_pieces.simps) simp
























lemma re_sub_empty:
  "re_sub [] s = concat (map (\<lambda>c. ''<b></b>'' @ [c]) s) @ ''<b></b>''"
  by (induction s) (simp_all add: re_sub_def join_def sub_pieces_empty_Nil sub_pieces_empty_Cons)

lemma occurs_ci_empty: "occurs_ci [] s"
  unfolding occurs_ci_def by (rule exI [of _ "[]"], rule exI [of _ "[]"], rule exI [of _ s]) simp

lemma filter_eq_replicate: "filter (\<lambda>x. x = a) xs = replicate (count_list xs a) a"
  by (induction xs) simp_all

lemma filter_empty_keyword:
  "filter (\<lambda>r. keyword r = []) (matches_of entry ks)
     = replicate (count_list ks []) (result_of entry [])"
proof -
  have "filter (\<lambda>r. keyword r = []) (matches_of entry ks)
      = map (result_of entry) (filter (\<lambda>kw. kw = []) (filter (\<lambda>kw. occurs_ci kw (sentence entry)) ks))"
    by (simp add: matches_of_def filter_map o_def result_of_def)
  also have "filter (\<lambda>kw. kw = []) (filter (\<lambda>kw. occurs_ci kw (sentence entry)) ks)
      = filter (\<lambda>kw. kw = []) ks"
    by (auto simp: occurs_ci_empty intro: filter_cong)
  finally show ?thesis
    by (simp add: filter_eq_replicate)
qed

lemma char_of_eq_iff': "char_of (n::nat) = c \<longleftrightarrow> n mod 256 = of_char c"
  by (auto simp: char_of_eq_iff take_bit_eq_mod)

lemma eq_char_of_iff: "c = char_of (n::nat) \<longleftrightarrow> of_char c = n mod 256"
  using char_of_eq_iff' [of n c] by auto

lemmas ci_defs = occurs_at_def py_lower_def lower_char_def code_point_def
  eq_char_of_iff char_of_eq_iff'

text \<open>
  C2 (as stated, refuted). The empty keyword does not match nothing. \<open>'' in s\<close> is true for
  every string \<open>s\<close>, so an index of one entry searched for the empty keyword gives one
  result; the empty pattern matches at every position of the sentence, and each match is
  replaced by an empty pair of markers.
\<close>

theorem search_empty_keyword_counterexample:
  "search_keywords_in_index [\<lparr>page_number = 1, sentence = ''ab''\<rparr>] ['''']
     = Inr [\<lparr>page_number = 1, sentence = ''<b></b>a<b></b>b<b></b>'', keyword = []\<rparr>]"
  by (simp add: search_keywords_in_index_eq matches_of_def result_of_def occurs_ci_empty re_sub_empty)

text \<open>
  C2 (amended). A search never raises (the pattern built from any keyword compiles), and
  the empty keyword matches every entry: each occurrence of the empty string in the
  keyword list contributes one result for each entry of the index, in index order, whose
  sentence is the entry's sentence with an empty pair \<open><b></b>\<close> before every character
  and at the end.
\<close>

theorem search_empty_keyword:
  "\<exists>results. search_keywords_in_index index ks = Inr results
     \<and> filter (\<lambda>r. keyword r = []) results
         = concat (map (\<lambda>entry. replicate (count_list ks [])
             \<lparr>page_number = page_number entry,
              sentence = concat (map (\<lambda>c. ''<b></b>'' @ [c]) (sentence entry)) @ ''<b></b>'',
              keyword = []\<rparr>) index)"
  by (simp add: search_keywords_in_index_eq filter_concat o_def filter_empty_keyword
      result_of_def re_sub_empty)













section \<open>The index cache: results\<close>

lemma code_point_less: "code_point c < 256"
  unfolding code_point_def using of_char_mod_256 [of c, where ?'a = nat]
  by (metis mod_less_divisor zero_less_numeral)

lemma code_point_char_of: "n < 256 \<Longrightarrow> code_point (char_of n) = n"
  by (simp add: code_point_def)

lemma char_of_code_point: "char_of (code_point c) = c"
  by (simp add: code_point_def)

lemma hex_value_hex_digit: "d < 16 \<Longrightarrow> hex_value (hex_digit d) = Some d"
  by (auto simp: hex_value_def hex_digit_def code_point_char_of Let_def)

lemmas char_eval = dquote_def backslash_def code_point_def char_of_eq_iff' eq_char_of_iff

lemma lex_unicode_escape:
  assumes "n < 256"
  shows "json_scan (InString acc) (backslash # ''u00'' @ [hex_digit (n div 16), hex_digit (n mod 16)] @ rest)
       = json_scan (InString (char_of n # acc)) rest"
proof -
  have h: "hex_value (hex_digit (n div 16)) = Some (n div 16)"
    using assms by (intro hex_value_hex_digit) simp
  have l: "hex_value (hex_digit (n mod 16)) = Some (n mod 16)"
    by (intro hex_value_hex_digit) simp
  have z: "hex_value CHR ''0'' = Some 0"
    by (simp add: hex_value_def code_point_def)
  have "backslash \<noteq> dquote" by (simp add: char_eval)
  then show ?thesis
    using assms by (simp add: h l z)
qed

lemma char_of_code_pointI: "code_point c = n \<Longrightarrow> c = char_of n"
  by (auto simp: char_of_code_point)

lemma lex_encode_char:
  "json_scan (InString acc) (encode_char c @ rest) = json_scan (InString (c # acc)) rest"
proof -
  let ?n = "code_point c"
  consider (dq) "c = dquote" | (bs) "c = backslash"
    | (ctl) "?n \<in> {10, 13, 9, 8, 12}"
    | (plain) "c \<noteq> dquote" "c \<noteq> backslash" "32 \<le> ?n" "?n \<le> 126"
    | (uni) "c \<noteq> dquote" "c \<noteq> backslash" "?n \<notin> {10, 13, 9, 8, 12}" "\<not> (32 \<le> ?n \<and> ?n \<le> 126)"
    by blast
  then show ?thesis
  proof cases
    case dq
    then show ?thesis
      by (simp add: encode_char_def unescape_def char_eval)
  next
    case bs
    then show ?thesis
      by (simp add: encode_char_def unescape_def char_eval)
  next
    case ctl
    then consider "c = char_of (10::nat)" | "c = char_of (13::nat)" | "c = char_of (9::nat)"
      | "c = char_of (8::nat)" | "c = char_of (12::nat)"
      by (auto dest: char_of_code_pointI)
    then show ?thesis
      by cases (simp_all add: encode_char_def unescape_def dquote_def backslash_def code_point_def char_of_eq_iff')
  next
    case plain
    then show ?thesis
      by (simp add: encode_char_def Let_def)
  next
    case uni
    then show ?thesis
      using lex_unicode_escape [OF code_point_less, of acc c rest]
      by (simp add: encode_char_def Let_def char_of_code_point)
  qed
qed

lemma lex_string_body:
  "json_scan (InString acc) (concat (map encode_char s) @ dquote # rest)
     = emit (TString (rev acc @ s)) (json_scan Idle rest)"
  by (induction s arbitrary: acc) (simp_all add: lex_encode_char)

lemma lex_encode_string:
  "json_scan Idle (encode_string s @ rest) = emit (TString s) (json_scan Idle rest)"
  by (simp add: encode_string_def lex_string_body) (simp add: is_json_space_def char_eval)

lemma digit_char: "d < 10 \<Longrightarrow> is_digit (char_of (48 + d)) \<and> code_point (char_of (48 + d)) - 48 = d"
  by (simp add: is_digit_def code_point_char_of)

lemma digits_small: "n < 10 \<Longrightarrow> digits n = [char_of (48 + n)]"
  by (subst digits.simps) simp

lemma digits_large:
  "\<not> n < 10 \<Longrightarrow> digits n = digits (n div 10) @ [char_of (48 + n mod 10)]"
  by (subst digits.simps) simp

lemma digits_all: "\<forall>c \<in> set (digits n). is_digit c"
proof (induction n rule: digits.induct)
  case (1 n)
  show ?case
  proof (cases "n < 10")
    case True
    then show ?thesis by (simp add: digits_small digit_char)
  next
    case False
    with 1 show ?thesis by (simp add: digits_large digit_char)
  qed
qed

lemma digits_not_empty: "digits n \<noteq> []"
  by (cases "n < 10") (simp_all add: digits_small digits_large)

lemma digits_value_snoc:
  "digits_value (ds @ [c]) = 10 * digits_value ds + (code_point c - 48)"
  by (simp add: digits_value_def)

lemma digits_value_digits: "digits_value (digits n) = n"
proof (induction n rule: digits.induct)
  case (1 n)
  show ?case
  proof (cases "n < 10")
    case True
    then show ?thesis by (simp add: digits_small digits_value_def digit_char)
  next
    case False
    with 1 show ?thesis by (simp add: digits_large digits_value_snoc digit_char)
  qed
qed

lemma hd_digits: "0 < n \<Longrightarrow> hd (digits n) \<noteq> CHR ''0''"
proof (induction n rule: digits.induct)
  case (1 n)
  show ?case
  proof (cases "n < 10")
    case True
    with 1(2) show ?thesis by (simp add: digits_small char_of_eq_iff')
  next
    case False
    then have "hd (digits (n div 10)) \<noteq> CHR ''0''" by (intro 1(1)) simp_all
    with False show ?thesis by (simp add: digits_large digits_not_empty)
  qed
qed

lemma length_digits: "1 < length (digits n) \<Longrightarrow> 0 < n"
  by (cases "n < 10") (auto simp: digits_small)

lemma finish_number_digits:
  "finish_number neg (rev (digits n)) = Some (TInt (if neg then - int n else int n))"
proof -
  have "\<not> (1 < length (digits n) \<and> hd (digits n) = CHR ''0'')"
    using hd_digits length_digits by blast
  then show ?thesis
    by (simp add: finish_number_def digits_not_empty digits_value_digits last_rev)
qed

lemma lex_digits:
  "\<forall>c \<in> set xs. is_digit c \<Longrightarrow>
   json_scan (InNumber neg ds) (xs @ CHR '','' # rest)
     = emit_number neg (rev xs @ ds) (emit Comma (json_scan Idle rest))"
proof (induction xs arbitrary: ds)
  case Nil
  then show ?case
    by (simp add: is_digit_def is_json_space_def punctuation_def code_point_def)
next
  case (Cons x xs)
  then show ?case by simp
qed

lemma is_digit_not_special:
  "is_digit c \<Longrightarrow> \<not> is_json_space c \<and> c \<noteq> dquote \<and> c \<noteq> CHR ''-''"
  by (auto simp: is_digit_def is_json_space_def char_eval)

lemma lex_encode_int:
  "json_scan Idle (encode_int i @ CHR '','' # rest) = emit (TInt i) (emit Comma (json_scan Idle rest))"
proof (cases "i < 0")
  case True
  have "json_scan Idle (CHR ''-'' # digits (nat (- i)) @ CHR '','' # rest)
      = json_scan (InNumber True []) (digits (nat (- i)) @ CHR '','' # rest)"
    by (simp add: is_json_space_def char_eval)
  with True show ?thesis
    by (simp add: encode_int_def lex_digits digits_all emit_number_def finish_number_digits)
next
  case False
  obtain d ds where ds: "digits (nat i) = d # ds"
    using digits_not_empty [of "nat i"] by (cases "digits (nat i)") auto
  then have d: "is_digit d" and rest: "\<forall>c \<in> set ds. is_digit c"
    using digits_all [of "nat i"] by simp_all
  have "json_scan Idle (d # ds @ CHR '','' # rest)
      = emit_number False (rev (d # ds)) (emit Comma (json_scan Idle rest))"
    using is_digit_not_special [OF d] d by (simp add: lex_digits rest)
  then have "json_scan Idle (digits (nat i) @ CHR '','' # rest)
      = emit_number False (rev (digits (nat i))) (emit Comma (json_scan Idle rest))"
    by (simp only: ds append_Cons)
  moreover have "finish_number False (rev (digits (nat i))) = Some (TInt i)"
    using False by (simp add: finish_number_digits)
  ultimately show ?thesis
    using False by (simp add: encode_int_def emit_number_def)
qed

lemma emit_emits: "emit t (emits ts r) = emits (t # ts) r"
  by (cases r) (simp_all add: emit_def emits_def)

lemma emit_as_emits: "emit t r = emits [t] r"
  by (cases r) (simp_all add: emit_def emits_def)

lemma emits_emits: "emits ts (emits us r) = emits (ts @ us) r"
  by (cases r) (simp_all add: emits_def)

lemma lex_punct:
  "json_scan Idle (CHR ''{'' # rest) = emit LBrace (json_scan Idle rest)"
  "json_scan Idle (CHR ''}'' # rest) = emit RBrace (json_scan Idle rest)"
  "json_scan Idle (CHR ''['' # rest) = emit LBracket (json_scan Idle rest)"
  "json_scan Idle (CHR '']'' # rest) = emit RBracket (json_scan Idle rest)"
  "json_scan Idle (CHR '':'' # rest) = emit Colon (json_scan Idle rest)"
  "json_scan Idle (CHR '','' # rest) = emit Comma (json_scan Idle rest)"
  "json_scan Idle (CHR '' '' # rest) = json_scan Idle rest"
  by (simp_all add: is_json_space_def is_digit_def punctuation_def char_eval)

lemma lex_encode_entry:
  "json_scan Idle (encode_entry e @ rest) = emits (entry_tokens e) (json_scan Idle rest)"
proof -
  have "json_scan Idle (encode_entry e @ rest)
      = emit LBrace (emit (TString ''Page Number'') (emit Colon (emit (TInt (page_number e))
          (emit Comma (emit (TString ''Sentence'') (emit Colon (emit (TString (sentence e))
            (emit RBrace (json_scan Idle rest)))))))))"
    unfolding encode_entry_def
    by (simp only: append_Cons append_Nil append_assoc lex_punct lex_encode_string lex_encode_int)
  then show ?thesis
    by (simp add: entry_tokens_def emit_as_emits emits_emits)
qed

lemma lex_encode_entries:
  "json_scan Idle (encode_entries es @ '']'') = Some (entries_tokens es @ [RBracket])"
proof (induction es rule: encode_entries.induct)
  case 1
  have "json_scan Idle (encode_entries [] @ '']'') = emit RBracket (json_scan Idle [])"
    by (simp only: encode_entries.simps append_Nil lex_punct)
  then show ?case by (simp add: emit_def)
next
  case (2 e)
  have "json_scan Idle (encode_entries [e] @ '']'')
      = emits (entry_tokens e) (emit RBracket (json_scan Idle []))"
    by (simp only: encode_entries.simps lex_encode_entry lex_punct)
  then show ?case by (simp add: emit_def emits_def)
next
  case (3 e e' es)
  have "json_scan Idle (encode_entries (e # e' # es) @ '']'')
      = emits (entry_tokens e) (json_scan Idle ('', '' @ encode_entries (e' # es) @ '']''))"
    by (simp only: encode_entries.simps append_assoc lex_encode_entry)
  also have "json_scan Idle ('', '' @ encode_entries (e' # es) @ '']'')
      = emit Comma (json_scan Idle (encode_entries (e' # es) @ '']''))"
    by (simp only: append_Cons append_Nil lex_punct)
  finally show ?case
    using 3 by (simp add: emit_def emits_def)
qed

lemma lex_json_dumps:
  "json_scan Idle (json_dumps index) = Some (LBracket # entries_tokens index @ [RBracket])"
  unfolding json_dumps_def
  by (simp only: append_Cons append_Nil lex_punct lex_encode_entries) (simp add: emit_def)

lemma entry_of_object_entry:
  "entry_of_object [(''Page Number'', TInt p), (''Sentence'', TString s)]
     = Some \<lparr>page_number = p, sentence = s\<rparr>"
  by (simp add: entry_of_object_def)

lemma parse_entry_tokens:
  "parse ExpectObject (entry_tokens e @ rest) = map_option (Cons e) (parse AfterObject rest)"
  by (cases e) (simp add: entry_tokens_def entry_of_object_entry)

lemma parse_entries_tokens:
  "es \<noteq> [] \<Longrightarrow> parse ExpectObject (entries_tokens es @ [RBracket]) = Some es"
proof (induction es rule: entries_tokens.induct)
  case 1
  then show ?case by simp
next
  case (2 e)
  then show ?case by (simp add: parse_entry_tokens)
next
  case (3 e e' es)
  then show ?case by (simp add: parse_entry_tokens del: entries_tokens.simps(3))
     (simp add: parse_entry_tokens)
qed

lemma json_loads_dumps: "json_loads (json_dumps index) = Inr index"
proof (cases index)
  case Nil
  then show ?thesis
    by (simp add: json_loads_def lex_json_dumps parse_index_def)
next
  case (Cons e es)
  then have "entries_tokens index @ [RBracket] \<noteq> RBracket # rest" for rest
    by (cases es) (simp_all add: entry_tokens_def)
  then have "parse_index (LBracket # entries_tokens index @ [RBracket])
      = parse ExpectObject (entries_tokens index @ [RBracket])"
    by (cases "entries_tokens index @ [RBracket]") (auto simp: parse_index_def split: token.splits)
  with Cons show ?thesis
    by (simp add: json_loads_def lex_json_dumps parse_entries_tokens)
qed

text \<open>The scanner also reads other layouts of the same index, and rejects ill-formed text.\<close>

lemmas json_eval = json_loads_def parse_index_def entry_of_object_def emit_def emit_number_def
  finish_number_def digits_value_def is_digit_def is_json_space_def punctuation_def unescape_def
  hex_value_def dquote_def backslash_def code_point_def char_of_eq_iff' eq_char_of_iff

lemma json_loads_other_layout:
  \<open>json_loads ('' [ {"Sentence" :"aA'' @ [backslash] @ ''n", "Page Number": 12} ,
                    {"Page Number": -3, "Sentence": ""}] '')
   = Inr [\<lparr>page_number = 12, sentence = ''aA'' @ [CHR 0x0A]\<rparr>,
          \<lparr>page_number = - 3, sentence = []\<rparr>]\<close>
  by (simp add: json_eval)

lemma json_loads_ill_formed:
  \<open>json_loads ''[{"Page Number": 01, "Sentence": ""}]'' = Inl DecodeError\<close>
  \<open>json_loads ''[{"Page Number": 1, "Sentence": ""},]'' = Inl DecodeError\<close>
  by (simp_all add: json_eval)

text \<open>
  C8. Loading the file that \<open>save_index_to_file\<close> has written returns the index saved:
  for every index (the empty one included, and whatever the page numbers and the
  characters of the sentences), every file name and every file system.
\<close>

theorem load_after_save:
  "load_index_from_file (save_index_to_file index filename fs) filename = Inr index"
  by (simp add: load_index_from_file_def save_index_to_file_def json_loads_dumps)

section \<open>A search request: results\<close>

lemma search_keywords_in_pdf_cached:
  assumes "os_path_isfile fs pdf_file"
    and "fs INDEX_FILE_PATH = Some (TextFile (json_dumps index))"
  shows "search_keywords_in_pdf sch clk fs pdf_file kws
     = (Inr (concat (map (\<lambda>entry. matches_of entry kws) index), end_time clk - start_time clk), fs)"
  using assms
  by (simp add: search_keywords_in_pdf_def os_path_isfile_def load_index_from_file_def
      json_loads_dumps search_keywords_in_index_eq)

text \<open>
  C9 (as stated, refuted). What the caller receives for a document that does not exist is
  what it receives for a legitimate search without matches whose two clock readings
  coincide: an empty list and the duration 0. Nothing else is returned, so there is no
  status to tell the two apart. (Here the document and its cached index exist, and the
  keyword does not occur in the index.)
\<close>

theorem search_missing_document_counterexample:
  "\<not> os_path_isfile no_files ''Resources/physText.pdf''
   \<and> os_path_isfile cached_files ''Resources/physText.pdf''
   \<and> fst (search_keywords_in_pdf \<lparr>task_raises = no_failure, completion = []\<rparr>
          \<lparr>start_time = 5, end_time = 5\<rparr> no_files ''Resources/physText.pdf'' [''law''])
     = fst (search_keywords_in_pdf \<lparr>task_raises = no_failure, completion = []\<rparr>
          \<lparr>start_time = 5, end_time = 5\<rparr> cached_files ''Resources/physText.pdf'' [''law''])"
proof -
  have missing: "\<not> os_path_isfile no_files ''Resources/physText.pdf''"
    by (simp add: os_path_isfile_def no_files_def)
  have present: "os_path_isfile cached_files ''Resources/physText.pdf''"
    by (simp add: os_path_isfile_def cached_files_def INDEX_FILE_PATH_def)
  have cache: "cached_files INDEX_FILE_PATH
      = Some (TextFile (json_dumps [\<lparr>page_number = 1, sentence = ''It moves.''\<rparr>]))"
    by (simp add: cached_files_def)
  have none: "\<not> occurs_ci ''law'' ''It moves.''"
    unfolding py_in_occurs_ci [symmetric] by (simp add: ci_defs)
  have "search_keywords_in_pdf \<lparr>task_raises = no_failure, completion = []\<rparr>
          \<lparr>start_time = 5, end_time = 5\<rparr> no_files ''Resources/physText.pdf'' [''law'']
      = (Inr ([], 0), no_files)"
    using missing by (simp add: search_keywords_in_pdf_def)
  moreover have "search_keywords_in_pdf \<lparr>task_raises = no_failure, completion = []\<rparr>
          \<lparr>start_time = 5, end_time = 5\<rparr> cached_files ''Resources/physText.pdf'' [''law'']
      = (Inr ([], 0), cached_files)"
    by (simp add: search_keywords_in_pdf_cached [OF present cache] matches_of_def none)
  ultimately show ?thesis
    using missing present by simp
qed

text \<open>
  C9 (amended). For every keyword list, a search against a document path that does not
  exist returns the empty result list and the duration 0, raises nothing and leaves the
  files as they are.
\<close>

theorem search_missing_document:
  assumes "\<not> os_path_isfile fs pdf_file"
  shows "search_keywords_in_pdf sch clk fs pdf_file kws = (Inr ([], 0), fs)"
  using assms by (simp add: search_keywords_in_pdf_def)

text \<open>No file exists at all.\<close>

theorem search_missing_document_witness:
  "search_keywords_in_pdf \<lparr>task_raises = no_failure, completion = []\<rparr>
     \<lparr>start_time = 5, end_time = 7\<rparr> no_files ''Resources/physText.pdf'' [''law'']
     = (Inr ([], 0), no_files)"
  by (rule search_missing_document) (simp add: os_path_isfile_def no_files_def)

section \<open>The scenario of the specification\<close>

text \<open>A document of two pages is built, with the second page collected first, and searched
  for one keyword.\<close>

lemma scenario_build:
  "preprocess_pdf \<lparr>task_raises = no_failure, completion = [1, 0]\<rparr>
     (single_pdf ''doc.pdf''
        [Inr ''Newton's first law holds. It is foundational.'',
         Inr ''The second law of motion is different.'']) ''doc.pdf''
   = [\<lparr>page_number = 1, sentence = ''Newton's first law holds.''\<rparr>,
      \<lparr>page_number = 1, sentence = ''It is foundational.''\<rparr>,
      \<lparr>page_number = 2, sentence = ''The second law of motion is different.''\<rparr>]"
  by (simp add: build_defs segment_defs)

lemma scenario_search:
  "search_keywords_in_index
     [\<lparr>page_number = 1, sentence = ''Newton's first law holds.''\<rparr>,
      \<lparr>page_number = 1, sentence = ''It is foundational.''\<rparr>,
      \<lparr>page_number = 2, sentence = ''The second law of motion is different.''\<rparr>] [''law'']
   = Inr [\<lparr>page_number = 1, sentence = ''Newton's first <b>law</b> holds.'', keyword = ''law''\<rparr>,
          \<lparr>page_number = 2, sentence = ''The second <b>law</b> of motion is different.'',
             keyword = ''law''\<rparr>]"
  unfolding search_keywords_in_index_eq matches_of_def py_in_occurs_ci [symmetric]
  by (simp add: result_of_def re_sub_def sub_pieces.simps join_def ci_defs)

end
